theory Spec2Isabelle
  imports Complex_Main "HOL-Library.AList"
begin

section \<open>Errors raised by the Python code\<close>

text \<open>
  Every exception the modelled functions can raise is a value of \<open>py_error\<close>;
  a fallible function returns \<open>py_error + 'a\<close> with \<open>Inl\<close> for the exception.
\<close>

datatype py_error =
  KeyError | ValueError | TypeError | IndexError | AttributeError | OSError | NotModelled

text \<open>
  \<open>collect\<close> runs a list of fallible steps from left to right and stops at the first
  exception, as a Python loop or comprehension does.
\<close>

fun collect :: "('e + 'a) list \<Rightarrow> 'e + 'a list" where
  "collect [] = Inr []"
| "collect (x # xs) =
     (case x of
        Inl e \<Rightarrow> Inl e
      | Inr v \<Rightarrow> (case collect xs of Inl e \<Rightarrow> Inl e | Inr vs \<Rightarrow> Inr (v # vs)))"

section \<open>Field dynamics: \<open>symbolic_modules/math_core.py\<close>\<close>

text \<open>
  NumPy vectors of floats are modelled as lists of reals, so the arithmetic below
  is exact real arithmetic. \<open>EPS\<close> is the module constant \<open>1e-12\<close>.
\<close>

definition EPS :: real where
  "EPS = 1 / 10 ^ 12"

definition activation :: "real list \<Rightarrow> real list" where
  "activation w = map (\<lambda>x. 1 / (1 + exp (- x))) w"

definition entropy :: "real list \<Rightarrow> real" where
  "entropy a = (let p2 = map (\<lambda>x. x ^ 2) a
                in - sum_list (map (\<lambda>p. p * ln (p + EPS)) p2))"



definition check_collapse :: "real \<Rightarrow> real \<Rightarrow> bool" where
  "check_collapse S S_crit = (S > S_crit)"

text \<open>
  \<open>np.argmax\<close> returns the first index holding the maximum and raises
  \<open>ValueError\<close> on an empty array. \<open>argmax_from i b j xs\<close> scans \<open>xs\<close>, whose
  first element has index \<open>j\<close>, with the best value \<open>b\<close> seen so far at index \<open>i\<close>;
  only a strictly larger value replaces the best.
\<close>

fun argmax_from :: "nat \<Rightarrow> real \<Rightarrow> nat \<Rightarrow> real list \<Rightarrow> nat" where
  "argmax_from i b j [] = i"
| "argmax_from i b j (x # xs) =
     (if b < x then argmax_from j x (Suc j) xs else argmax_from i b (Suc j) xs)"

fun np_argmax :: "real list \<Rightarrow> py_error + nat" where
  "np_argmax [] = Inl ValueError"
| "np_argmax (x # xs) = Inr (argmax_from 0 x 1 xs)"

text \<open>
  \<open>collapse_weights\<close>: \<open>w_new = (1 - alpha) * w\<close>, then \<open>w_new[collapsed_index] += alpha\<close>.
  The index is a Python integer: a negative index counts from the end, and an index
  outside \<open>[-n, n)\<close> raises \<open>IndexError\<close>.
\<close>

definition collapse_weights :: "real list \<Rightarrow> int \<Rightarrow> real \<Rightarrow> py_error + real list" where
  "collapse_weights w collapsed_index alpha =
     (let w_new = map (\<lambda>x. (1 - alpha) * x) w;
          n = int (length w_new);
          j = (if collapsed_index < 0 then n + collapsed_index else collapsed_index)
      in if 0 \<le> j \<and> j < n
         then Inr (w_new[nat j := w_new ! nat j + alpha])
         else Inl IndexError)"

text \<open>
  The collapse part of \<open>QPFAssistant.chat\<close> (\<open>main.py\<close>): the activation and its
  entropy are computed from the weights, the collapse index is \<open>int(np.argmax(a))\<close>,
  and the weights are replaced by \<open>collapse_weights\<close> only when \<open>check_collapse\<close>
  holds. The result is the flag \<open>collapsed\<close>, the index and the weights afterwards.
\<close>

definition chat_collapse :: "real list \<Rightarrow> real \<Rightarrow> real \<Rightarrow> py_error + (bool \<times> nat \<times> real list)" where
  "chat_collapse w S_crit alpha =
     (let a = activation w;
          S = entropy a
      in case np_argmax a of
           Inl e \<Rightarrow> Inl e
         | Inr collapsed_index \<Rightarrow>
             (if check_collapse S S_crit
              then (case collapse_weights w (int collapsed_index) alpha of
                      Inl e \<Rightarrow> Inl e
                    | Inr w' \<Rightarrow> Inr (True, collapsed_index, w'))
              else Inr (False, collapsed_index, w)))"

section \<open>Python values and JSON documents\<close>

text \<open>
  The values an event payload can hold. A \<open>dict\<close> is an association list in
  insertion order (\<open>payload: Dict[str, Any]\<close>, so keys are strings); \<open>PObject\<close>
  stands for any object the \<open>json\<close> module cannot encode (a \<open>datetime\<close>, a NumPy
  array, a set).
\<close>

datatype pyval =
    PNone
  | PBool bool
  | PInt int
  | PFloat real
  | PStr string
  | PList "pyval list"
  | PTuple "pyval list"
  | PDict "(string \<times> pyval) list"
  | PObject string

datatype json =
    JNull
  | JBool bool
  | JInt int
  | JFloat real
  | JStr string
  | JArr "json list"
  | JObj "(string \<times> json) list"



definition dict_of :: "('k \<times> 'v) list \<Rightarrow> ('k \<times> 'v) list" where
  "dict_of kvs = fold (\<lambda>kv d. AList.update (fst kv) (snd kv) d) kvs []"

primrec of_json :: "json \<Rightarrow> pyval" where
  "of_json JNull = PNone"
| "of_json (JBool b) = PBool b"
| "of_json (JInt i) = PInt i"
| "of_json (JFloat r) = PFloat r"
| "of_json (JStr s) = PStr s"
| "of_json (JArr xs) = PList (map of_json xs)"
| "of_json (JObj kvs) = PDict (dict_of (map (map_prod id of_json) kvs))"


text \<open>Looking a key up in a loaded JSON object: the last occurrence of the key counts.\<close>

definition json_get :: "(string \<times> json) list \<Rightarrow> string \<Rightarrow> json option" where
  "json_get kvs k = map_of (rev kvs) k"

section \<open>Events and the event graph: \<open>q_core_modules/memory_graph.py\<close>\<close>

text \<open>
  A \<open>datetime\<close> is its wall-clock reading in microseconds together with its UTC
  offset in microseconds, if it has one (a naive \<open>datetime\<close> has none). Two aware
  values are compared by their UTC instants, two naive values by their readings, and
  comparing a naive with an aware value raises \<open>TypeError\<close>.
\<close>

record datetime =
  naive_us :: int
  utcoffset :: "int option"

definition aware :: "datetime \<Rightarrow> bool" where
  "aware t = (utcoffset t \<noteq> None)"

definition utc_us :: "datetime \<Rightarrow> int" where
  "utc_us t = naive_us t - (case utcoffset t of None \<Rightarrow> 0 | Some off \<Rightarrow> off)"

text \<open>
  The dataclass \<open>MemoryEvent\<close>. Its fields \<open>id\<close> and \<open>type\<close> are called \<open>event_id\<close>
  and \<open>event_type\<close> here, \<open>id\<close> being a constant of HOL.
\<close>

record MemoryEvent =
  event_id :: string
  timestamp :: datetime
  event_type :: string
  payload :: "(string \<times> pyval) list"

text \<open>
  The \<open>networkx.DiGraph\<close> held by a \<open>MemoryGraph\<close>. The library keeps two
  insertion-ordered dicts keyed by node: the node attributes (here the \<open>event\<close>
  attribute, the only one this program sets) and the successors of the node with the
  attributes of each edge (here the \<open>relation\<close> label). The model keeps both under the
  node's key, in node insertion order.
\<close>

record node_entry =
  event :: MemoryEvent
  adj :: "(string \<times> string) list"

type_synonym digraph = "(string \<times> node_entry) list"

definition has_node :: "digraph \<Rightarrow> string \<Rightarrow> bool" where
  "has_node g n = (map_of g n \<noteq> None)"

definition nodes :: "digraph \<Rightarrow> string list" where
  "nodes g = map fst g"

text \<open>\<open>G.edges(data=True)\<close>: node by node, the successors of each in insertion order.\<close>

definition edges :: "digraph \<Rightarrow> (string \<times> string \<times> string) list" where
  "edges g = concat (map (\<lambda>(u, e). map (\<lambda>(v, r). (u, v, r)) (adj e)) g)"

text \<open>The edges that leave one node, as \<open>G.edges\<close> lists them.\<close>

definition entry_edges :: "string \<times> node_entry \<Rightarrow> (string \<times> string \<times> string) list" where
  "entry_edges ne = map (\<lambda>(v, r). (fst ne, v, r)) (adj (snd ne))"

definition number_of_nodes :: "digraph \<Rightarrow> nat" where
  "number_of_nodes g = length g"

definition number_of_edges :: "digraph \<Rightarrow> nat" where
  "number_of_edges g = length (edges g)"

definition edge_relation :: "digraph \<Rightarrow> string \<Rightarrow> string \<Rightarrow> string option" where
  "edge_relation g u v = (case map_of g u of None \<Rightarrow> None | Some e \<Rightarrow> map_of (adj e) v)"

text \<open>
  \<open>add_node(n, event=ev)\<close> appends a new node, or replaces the \<open>event\<close> attribute of
  an existing one and keeps its place and its edges.
\<close>

definition add_node :: "digraph \<Rightarrow> string \<Rightarrow> MemoryEvent \<Rightarrow> digraph" where
  "add_node g n ev =
     (case map_of g n of
        None \<Rightarrow> g @ [(n, \<lparr>event = ev, adj = []\<rparr>)]
      | Some e \<Rightarrow> AList.update n (e\<lparr>event := ev\<rparr>) g)"

text \<open>
  \<open>add_edge(u, v, relation=r)\<close> between two existing nodes: a new successor entry, or
  a new label on the existing one. (The library would also create a missing endpoint;
  every call in this program is guarded by a membership test.)
\<close>

definition add_edge :: "digraph \<Rightarrow> string \<Rightarrow> string \<Rightarrow> string \<Rightarrow> digraph" where
  "add_edge g u v r =
     (case map_of g u of
        None \<Rightarrow> g
      | Some e \<Rightarrow> AList.update u (e\<lparr>adj := AList.update v r (adj e)\<rparr>) g)"

text \<open>
  \<open>link_events\<close> adds the labelled edge when both endpoints are nodes of the graph and
  raises \<open>KeyError\<close> otherwise. The result is the outcome of the call together with the
  graph afterwards.
\<close>

definition link_events :: "digraph \<Rightarrow> string \<Rightarrow> string \<Rightarrow> string \<Rightarrow> (py_error + unit) \<times> digraph" where
  "link_events g src_id dst_id relation =
     (if has_node g src_id \<and> has_node g dst_id
      then (Inr (), add_edge g src_id dst_id relation)
      else (Inl KeyError, g))"

text \<open>
  \<open>prior.sort(key=lambda x: x[1], reverse=True)\<close>: a stable sort into descending order,
  which leaves elements with equal keys in their original order (CPython reverses the
  list, sorts it stably ascending and reverses it again). Sorting two or more
  timestamps of which some are naive and some aware raises \<open>TypeError\<close>.
\<close>

definition comparable :: "datetime list \<Rightarrow> bool" where
  "comparable ts = ((\<forall>t\<in>set ts. aware t) \<or> (\<forall>t\<in>set ts. \<not> aware t))"

definition sort_reverse :: "(string \<times> datetime) list \<Rightarrow> py_error + (string \<times> datetime) list" where
  "sort_reverse prior =
     (if comparable (map snd prior)
      then Inr (rev (sort_key (\<lambda>x. utc_us (snd x)) (rev prior)))
      else Inl TypeError)"

text \<open>
  \<open>add_event\<close> adds the node and, when the graph then has more than one node, looks up
  the timestamp of every other node, sorts these pairs by timestamp, latest first, and
  links from the first of them to the new node with the label \<open>next_in_time\<close>. An
  exception leaves the node added.
\<close>

definition node_timestamp :: "digraph \<Rightarrow> string \<Rightarrow> py_error + (string \<times> datetime)" where
  "node_timestamp g nid =
     (case map_of g nid of
        None \<Rightarrow> Inl KeyError
      | Some e \<Rightarrow> Inr (nid, timestamp (event e)))"

definition add_event :: "digraph \<Rightarrow> MemoryEvent \<Rightarrow> (py_error + unit) \<times> digraph" where
  "add_event g ev =
     (let g1 = add_node g (event_id ev) ev;
          all_nodes = nodes g1
      in if length all_nodes > 1
         then (case collect (map (node_timestamp g1) (filter (\<lambda>nid. nid \<noteq> event_id ev) all_nodes)) of
                 Inl e \<Rightarrow> (Inl e, g1)
               | Inr prior \<Rightarrow>
                   (case sort_reverse prior of
                      Inl e \<Rightarrow> (Inl e, g1)
                    | Inr [] \<Rightarrow> (Inl IndexError, g1)
                    | Inr (p # ps) \<Rightarrow> link_events g1 (fst p) (event_id ev) ''next_in_time''))
         else (Inr (), g1))"

subsection \<open>Persistence: \<open>save_json\<close> and \<open>load_json\<close>\<close>





text \<open>
  \<open>load_json\<close> rebuilds the graph with \<open>json_graph.node_link_graph(data, edges="links")\<close>
  and then turns the \<open>event\<close> dict of every node into a \<open>MemoryEvent\<close>:
  \<^item> the document must be an object (\<open>data.get\<close> of anything else raises
    \<open>AttributeError\<close>); its entries \<open>multigraph\<close> (default true) and \<open>directed\<close> (default
    false) choose the graph class by their truth value;
  \<^item> every element of \<open>data["nodes"]\<close> is added with \<open>add_node\<close>, in document order;
    a missing key raises \<open>KeyError\<close>, an element that is not an object has no \<open>get\<close>;
  \<^item> every element of \<open>data["links"]\<close> is added with \<open>add_edge\<close> from its \<open>source\<close>
    to its \<open>target\<close>; a missing key raises \<open>KeyError\<close>, indexing an element that is not
    an object raises \<open>TypeError\<close>;
  \<^item> last, each event dict becomes a \<open>MemoryEvent\<close> whose timestamp is \<open>isoparse\<close> of the
    stored string and whose payload defaults to the empty dict.

  The graph type of this model holds a directed simple graph whose nodes have string ids
  and a \<open>MemoryEvent\<close> with string fields and whose edges have a string \<open>relation\<close>.
  A document that the library would load into anything else (another graph class, a
  node without such an event, an edge to an undeclared node, an id or label that is not
  a string) is reported as \<open>NotModelled\<close>.
\<close>

fun truthy :: "json \<Rightarrow> bool" where
  "truthy JNull = False"
| "truthy (JBool b) = b"
| "truthy (JInt i) = (i \<noteq> 0)"
| "truthy (JFloat r) = (r \<noteq> 0)"
| "truthy (JStr s) = (s \<noteq> [])"
| "truthy (JArr xs) = (xs \<noteq> [])"
| "truthy (JObj kvs) = (kvs \<noteq> [])"

text \<open>
  What a \<open>for\<close> loop over a loaded value goes through: the elements of a list, the keys
  of a dict, the characters of a string; anything else is not iterable.
\<close>

fun iter_json :: "json \<Rightarrow> py_error + json list" where
  "iter_json (JArr xs) = Inr xs"
| "iter_json (JObj kvs) = Inr (map (\<lambda>kv. JStr (fst kv)) (dict_of kvs))"
| "iter_json (JStr s) = Inr (map (\<lambda>c. JStr [c]) s)"
| "iter_json v = Inl TypeError"

definition load_node :: "json \<Rightarrow> py_error + (string \<times> json)" where
  "load_node d =
     (case d of
        JObj attrs \<Rightarrow>
          (case (json_get attrs ''id'', json_get attrs ''event'') of
             (Some (JStr n), Some ev_dict) \<Rightarrow> Inr (n, ev_dict)
           | _ \<Rightarrow> Inl NotModelled)
      | _ \<Rightarrow> Inl AttributeError)"

definition load_link :: "json \<Rightarrow> py_error + (string \<times> string \<times> string)" where
  "load_link d =
     (case d of
        JObj attrs \<Rightarrow>
          (case json_get attrs ''source'' of
             None \<Rightarrow> Inl KeyError
           | Some src \<Rightarrow>
               (case json_get attrs ''target'' of
                  None \<Rightarrow> Inl KeyError
                | Some tgt \<Rightarrow>
                    (case (src, tgt, json_get attrs ''relation'') of
                       (JStr u, JStr v, Some (JStr r)) \<Rightarrow> Inr (u, v, r)
                     | _ \<Rightarrow> Inl NotModelled)))
      | _ \<Rightarrow> Inl TypeError)"

definition parse_event :: "(string \<Rightarrow> py_error + datetime) \<Rightarrow> json \<Rightarrow> py_error + MemoryEvent" where
  "parse_event isoparse j =
     (case j of
        JObj ev_dict \<Rightarrow>
          (case (json_get ev_dict ''id'', json_get ev_dict ''timestamp'', json_get ev_dict ''type'') of
             (Some (JStr i), Some (JStr ts), Some (JStr ty)) \<Rightarrow>
               (case isoparse ts of
                  Inl e \<Rightarrow> Inl e
                | Inr t \<Rightarrow>
                    (case json_get ev_dict ''payload'' of
                       None \<Rightarrow> Inr \<lparr>event_id = i, timestamp = t, event_type = ty, payload = []\<rparr>
                     | Some (JObj kvs) \<Rightarrow>
                         Inr \<lparr>event_id = i, timestamp = t, event_type = ty,
                              payload = dict_of (map (map_prod id of_json) kvs)\<rparr>
                     | Some _ \<Rightarrow> Inl NotModelled))
           | _ \<Rightarrow> Inl NotModelled)
      | _ \<Rightarrow> Inl NotModelled)"

definition rehydrate ::
  "(string \<Rightarrow> py_error + datetime) \<Rightarrow> string \<times> json \<Rightarrow> py_error + (string \<times> MemoryEvent)" where
  "rehydrate isoparse n =
     (case parse_event isoparse (snd n) of
        Inl e \<Rightarrow> Inl e
      | Inr ev \<Rightarrow> Inr (fst n, ev))"

fun add_links :: "digraph \<Rightarrow> (string \<times> string \<times> string) list \<Rightarrow> py_error + digraph" where
  "add_links g [] = Inr g"
| "add_links g ((u, v, r) # ls) =
     (if has_node g u \<and> has_node g v
      then add_links (add_edge g u v r) ls
      else Inl NotModelled)"

definition load_json :: "(string \<Rightarrow> py_error + datetime) \<Rightarrow> json \<Rightarrow> py_error + digraph" where
  "load_json isoparse data =
     (case data of
        JObj doc \<Rightarrow>
          (let multigraph = (case json_get doc ''multigraph'' of None \<Rightarrow> True | Some v \<Rightarrow> truthy v);
               directed = (case json_get doc ''directed'' of None \<Rightarrow> False | Some v \<Rightarrow> truthy v)
           in if multigraph \<or> \<not> directed then Inl NotModelled
              else
                (case json_get doc ''nodes'' of
                   None \<Rightarrow> Inl KeyError
                 | Some jnodes \<Rightarrow>
                     (case iter_json jnodes of
                        Inl e \<Rightarrow> Inl e
                      | Inr ns \<Rightarrow>
                          (case collect (map load_node ns) of
                             Inl e \<Rightarrow> Inl e
                           | Inr raw_nodes \<Rightarrow>
                               (case json_get doc ''links'' of
                                  None \<Rightarrow> Inl KeyError
                                | Some jlinks \<Rightarrow>
                                    (case iter_json jlinks of
                                       Inl e \<Rightarrow> Inl e
                                     | Inr ls \<Rightarrow>
                                         (case collect (map load_link ls) of
                                            Inl e \<Rightarrow> Inl e
                                          | Inr links_in \<Rightarrow>
                                              (case collect (map (rehydrate isoparse) raw_nodes) of
                                                 Inl e \<Rightarrow> Inl e
                                               | Inr nodes_in \<Rightarrow>
                                                   add_links
                                                     (fold (\<lambda>ne g. add_node g (fst ne) (snd ne)) nodes_in [])
                                                     links_in))))))))
      | _ \<Rightarrow> Inl AttributeError)"


text \<open>A node as \<open>node_link_graph\<close> first adds it: with its event and no edges yet.\<close>

definition clear_adj :: "string \<times> node_entry \<Rightarrow> string \<times> node_entry" where
  "clear_adj ne = (fst ne, \<lparr>event = event (snd ne), adj = []\<rparr>)"

text \<open>
  The graphs a \<open>MemoryGraph\<close> can hold: it starts empty, changes by \<open>add_event\<close> and
  \<open>link_events\<close>, whether or not the call raises, and is replaced by what \<open>load_json\<close>
  loads.
\<close>

inductive reachable :: "digraph \<Rightarrow> bool" where
  empty: "reachable []"
| add_event: "reachable g \<Longrightarrow> reachable (snd (add_event g ev))"
| link_events: "reachable g \<Longrightarrow> reachable (snd (link_events g src_id dst_id relation))"
| load_json: "load_json isoparse data = Inr g \<Longrightarrow> reachable g"

text \<open>
  The structural invariant of the two nested dicts: node keys are distinct, the
  successor keys of each node are distinct, and every successor is a node.
\<close>

definition wf_graph :: "digraph \<Rightarrow> bool" where
  "wf_graph g =
     (distinct (map fst g)
      \<and> (\<forall>ne\<in>set g. distinct (map fst (adj (snd ne)))
                    \<and> (\<forall>v\<in>set (map fst (adj (snd ne))). has_node g v)))"

section \<open>Semantic retrieval: \<open>q_core_modules/contextual_retriever.py\<close>\<close>

text \<open>
  The embedding function is a parameter. It is called once on the query and once on the
  list of candidate texts; the second call is modelled as the embedding of each text.
  \<open>pystr\<close> is Python's \<open>str\<close> of a payload dict, also a parameter.
\<close>

definition payload_text :: "((string \<times> pyval) list \<Rightarrow> string) \<Rightarrow> MemoryEvent \<Rightarrow> string" where
  "payload_text pystr ev =
     (case map_of (payload ev) ''text'' of
        Some (PStr txt) \<Rightarrow> txt
      | _ \<Rightarrow> pystr (payload ev))"

definition dot :: "real list \<Rightarrow> real list \<Rightarrow> real" where
  "dot u v = sum_list (map2 (*) u v)"

definition linalg_norm :: "real list \<Rightarrow> real" where
  "linalg_norm v = sqrt (sum_list (map (\<lambda>x. x ^ 2) v))"

text \<open>
  \<open>np.argsort\<close> gives the indices that sort the array into ascending order. Its
  default sort kind does not promise an order among equal elements; the model takes
  the stable one (equal elements in index order), which is what NumPy does on the short
  arrays it sorts by insertion.
\<close>

definition argsort :: "real list \<Rightarrow> nat list" where
  "argsort xs = sort_key (\<lambda>i. xs ! i) [0..<length xs]"

text \<open>The Python slice \<open>xs[start:]\<close> for an integer \<open>start\<close> of either sign.\<close>

definition slice_from :: "int \<Rightarrow> 'a list \<Rightarrow> 'a list" where
  "slice_from start xs =
     (let n = int (length xs)
      in drop (nat (if start < 0 then max (n + start) 0 else min start n)) xs)"

definition cosine_sims :: "real list list \<Rightarrow> real list \<Rightarrow> real list" where
  "cosine_sims embeddings query_vec =
     (let dots = map (\<lambda>e. dot e query_vec) embeddings;
          norms = map (\<lambda>e. linalg_norm e * linalg_norm query_vec) embeddings
      in map2 (\<lambda>d n. if n \<noteq> 0 then d / n else 0) dots norms)"

text \<open>
  The body of \<open>retrieve_semantic\<close>: what a call computes when the \<open>lru_cache\<close> around
  it has no result for its arguments. Unpacking \<open>zip(*[])\<close> into two names raises
  \<open>ValueError\<close>; embeddings that do not form a matrix with the query's dimension make
  \<open>np.array\<close> or the matrix product raise \<open>ValueError\<close>.
\<close>

definition retrieve_semantic ::
  "(string \<Rightarrow> real list) \<Rightarrow> ((string \<times> pyval) list \<Rightarrow> string) \<Rightarrow> digraph \<Rightarrow> string \<Rightarrow> int
     \<Rightarrow> py_error + MemoryEvent list" where
  "retrieve_semantic embedder pystr g text k =
     (let query_vec = embedder text;
          candidates = g
      in if candidates = [] then Inl ValueError
         else
           (let events = map (\<lambda>c. event (snd c)) candidates;
                texts = map (payload_text pystr) events;
                embeddings = map embedder texts
            in if \<exists>e\<in>set embeddings. length e \<noteq> length query_vec then Inl ValueError
               else
                 (let sims = cosine_sims embeddings query_vec;
                      idx = rev (slice_from (- k) (argsort sims))
                  in Inr (map (\<lambda>i. events ! i) idx))))"

text \<open>
  The method as decorated with \<open>lru_cache(maxsize=128)\<close>. The cache maps the arguments
  \<open>(text, k)\<close> to the list returned, least recently used entry first. A hit returns the
  stored list without looking at the graph and makes the entry the most recent; a miss
  runs the body, and stores its result (dropping the least recent entry of a full
  cache) unless the body raises.
\<close>

type_synonym lru = "((string \<times> int) \<times> MemoryEvent list) list"

definition retrieve_semantic_lru ::
  "(string \<Rightarrow> real list) \<Rightarrow> ((string \<times> pyval) list \<Rightarrow> string) \<Rightarrow> lru \<Rightarrow> digraph \<Rightarrow> string \<Rightarrow> int
     \<Rightarrow> (py_error + MemoryEvent list) \<times> lru" where
  "retrieve_semantic_lru embedder pystr cache g text k =
     (case map_of cache (text, k) of
        Some result \<Rightarrow> (Inr result, AList.delete (text, k) cache @ [((text, k), result)])
      | None \<Rightarrow>
          (case retrieve_semantic embedder pystr g text k of
             Inl e \<Rightarrow> (Inl e, cache)
           | Inr result \<Rightarrow>
               (Inr result,
                (if length cache \<ge> 128 then tl cache else cache) @ [((text, k), result)])))"

section \<open>Persisted field state: \<open>load_qpf_math_state\<close> in \<open>main.py\<close>\<close>

text \<open>
  A path of the file system is absent, a readable regular file with its content, or
  something that exists with a size but cannot be opened for reading (a directory, a
  file without permission).
\<close>

datatype fs_entry = RegularFile string | Unreadable nat

type_synonym filesystem = "string \<Rightarrow> fs_entry option"

definition os_path_join :: "string \<Rightarrow> string \<Rightarrow> string" where
  "os_path_join a b =
     (if a = [] then b else if last a = CHR ''/'' then a @ b else a @ ''/'' @ b)"

definition os_path_exists :: "filesystem \<Rightarrow> string \<Rightarrow> bool" where
  "os_path_exists fs p = (fs p \<noteq> None)"

definition os_path_getsize :: "filesystem \<Rightarrow> string \<Rightarrow> py_error + nat" where
  "os_path_getsize fs p =
     (case fs p of
        None \<Rightarrow> Inl OSError
      | Some (RegularFile content) \<Rightarrow> Inr (length content)
      | Some (Unreadable n) \<Rightarrow> Inr n)"

definition read_file :: "filesystem \<Rightarrow> string \<Rightarrow> py_error + string" where
  "read_file fs p =
     (case fs p of
        Some (RegularFile content) \<Rightarrow> Inr content
      | _ \<Rightarrow> Inl OSError)"

text \<open>
  A NumPy array is its shape and its elements in row-major order. \<open>np.array\<close> of a
  loaded JSON value takes nested arrays of equal shape as dimensions and raises
  \<open>ValueError\<close> when they are ragged; anything that is not an array is an element.
  Elements are kept as the JSON scalars stored (the conversion to a common dtype is not
  modelled).
\<close>

record ndarray =
  shape :: "nat list"
  flat :: "json list"

fun np_shape :: "json \<Rightarrow> nat list option" where
  "np_shape (JArr xs) =
     (case xs of
        [] \<Rightarrow> Some [0]
      | y # ys \<Rightarrow>
          (case np_shape y of
             None \<Rightarrow> None
           | Some s \<Rightarrow> if \<forall>z\<in>set ys. np_shape z = Some s then Some (length xs # s) else None))"
| "np_shape v = Some []"

fun np_flat :: "json \<Rightarrow> json list" where
  "np_flat (JArr xs) = concat (map np_flat xs)"
| "np_flat v = [v]"

definition np_array :: "json \<Rightarrow> py_error + ndarray" where
  "np_array j =
     (case np_shape j of
        None \<Rightarrow> Inl ValueError
      | Some s \<Rightarrow> Inr \<lparr>shape = s, flat = np_flat j\<rparr>)"

text \<open>
  \<open>np.random.randn(d0, ..)\<close> draws an array of the given shape from the generator.
  The generator is a stream of samples \<open>gauss\<close> and the position reached in it.
\<close>

definition randn :: "(nat \<Rightarrow> real) \<Rightarrow> nat list \<Rightarrow> nat \<Rightarrow> ndarray \<times> nat" where
  "randn gauss dims pos =
     (\<lparr>shape = dims, flat = map (\<lambda>i. JFloat (gauss i)) [pos..<pos + prod_list dims]\<rparr>,
      pos + prod_list dims)"

definition fresh_state :: "(nat \<Rightarrow> real) \<Rightarrow> nat \<Rightarrow> nat \<Rightarrow> nat \<Rightarrow> (ndarray \<times> ndarray \<times> ndarray) \<times> nat" where
  "fresh_state gauss N D pos =
     (let (w, pos1) = randn gauss [N] pos;
          (psi, pos2) = randn gauss [N, D] pos1;
          (W, pos3) = randn gauss [N, N] pos2
      in ((w, psi, W), pos3))"

text \<open>
  The body of the \<open>try\<close>: open and parse the file (\<open>json_load\<close> is the library's
  parser, a parameter), then index the parsed value with the three keys. Indexing
  anything but a JSON object with a string raises \<open>TypeError\<close>, a missing key
  \<open>KeyError\<close>.
\<close>

definition data_item :: "json \<Rightarrow> string \<Rightarrow> py_error + json" where
  "data_item data k =
     (case data of
        JObj kvs \<Rightarrow> (case json_get kvs k of None \<Rightarrow> Inl KeyError | Some v \<Rightarrow> Inr v)
      | _ \<Rightarrow> Inl TypeError)"

definition read_state :: "(string \<Rightarrow> py_error + json) \<Rightarrow> filesystem \<Rightarrow> string \<Rightarrow> py_error + (ndarray \<times> ndarray \<times> ndarray)" where
  "read_state json_load fs path =
     (case read_file fs path of
        Inl e \<Rightarrow> Inl e
      | Inr content \<Rightarrow>
          (case json_load content of
             Inl e \<Rightarrow> Inl e
           | Inr data \<Rightarrow>
               (case data_item data ''w'' of
                  Inl e \<Rightarrow> Inl e
                | Inr jw \<Rightarrow>
                    (case np_array jw of
                       Inl e \<Rightarrow> Inl e
                     | Inr w \<Rightarrow>
                         (case data_item data ''psi'' of
                            Inl e \<Rightarrow> Inl e
                          | Inr jpsi \<Rightarrow>
                              (case np_array jpsi of
                                 Inl e \<Rightarrow> Inl e
                               | Inr psi \<Rightarrow>
                                   (case data_item data ''W'' of
                                      Inl e \<Rightarrow> Inl e
                                    | Inr jW \<Rightarrow>
                                        (case np_array jW of
                                           Inl e \<Rightarrow> Inl e
                                         | Inr W \<Rightarrow> Inr (w, psi, W)))))))))"

text \<open>
  \<open>load_qpf_math_state(user_dir, N, D)\<close>: the stored arrays when the file exists, is
  not empty and the \<open>try\<close> body succeeds; three fresh random arrays in every other
  case (\<open>except Exception\<close> catches whatever the body raises). The result carries the
  generator position afterwards.
\<close>

definition load_qpf_math_state ::
  "(string \<Rightarrow> py_error + json) \<Rightarrow> (nat \<Rightarrow> real) \<Rightarrow> filesystem \<Rightarrow> string \<Rightarrow> nat \<Rightarrow> nat \<Rightarrow> nat
     \<Rightarrow> py_error + ((ndarray \<times> ndarray \<times> ndarray) \<times> nat)" where
  "load_qpf_math_state json_load gauss fs user_dir N D pos =
     (let path = os_path_join user_dir ''qpf_weights.json''
      in if os_path_exists fs path
         then (case os_path_getsize fs path of
                 Inl e \<Rightarrow> Inl e
               | Inr sz \<Rightarrow>
                   (if sz > 0
                    then (case read_state json_load fs path of
                            Inr st \<Rightarrow> Inr (st, pos)
                          | Inl e \<Rightarrow> Inr (fresh_state gauss N D pos))
                    else Inr (fresh_state gauss N D pos)))
         else Inr (fresh_state gauss N D pos))"

section \<open>Example data\<close>

text \<open>
  Three events and the graph that \<open>add_event\<close> builds from the first two. The first
  two events carry the same timestamp; the third is older.
\<close>

definition ev_a :: MemoryEvent where
  "ev_a = \<lparr>event_id = ''a'', timestamp = \<lparr>naive_us = 10, utcoffset = None\<rparr>,
           event_type = ''user_input'', payload = [(''text'', PStr ''hello'')]\<rparr>"

definition ev_b :: MemoryEvent where
  "ev_b = \<lparr>event_id = ''b'', timestamp = \<lparr>naive_us = 10, utcoffset = None\<rparr>,
           event_type = ''q_response'', payload = [(''text'', PStr ''hi'')]\<rparr>"

definition ev_c :: MemoryEvent where
  "ev_c = \<lparr>event_id = ''c'', timestamp = \<lparr>naive_us = 5, utcoffset = None\<rparr>,
           event_type = ''sensor_reading'', payload = [(''sense'', PStr ''audio''), (''energy'', PFloat (1 / 2))]\<rparr>"

definition graph_ab :: digraph where
  "graph_ab = [(''a'', \<lparr>event = ev_a, adj = [(''b'', ''next_in_time'')]\<rparr>),
               (''b'', \<lparr>event = ev_b, adj = []\<rparr>)]"


text \<open>
  Two embedding functions for the examples: one maps every text to the same unit
  vector, the other maps \<open>hello\<close> to \<open>[3, 4]\<close>, \<open>hi\<close> to the zero vector and any other
  text to \<open>[1, 0]\<close>. \<open>no_str\<close> stands in for \<open>str\<close> of a payload.
\<close>

definition unit_embedder :: "string \<Rightarrow> real list" where
  "unit_embedder s = [1, 0]"


definition no_str :: "(string \<times> pyval) list \<Rightarrow> string" where
  "no_str p = ''''"

text \<open>
  A file system with a stored state, an unparsable file, an empty file, a file whose
  arrays are ragged and a directory in place of the file, with a stand-in for the JSON
  parser on the two contents that parse, and a sample stream.
\<close>

definition example_json_load :: "string \<Rightarrow> py_error + json" where
  "example_json_load s =
     (if s = ''state''
      then Inr (JObj [(''w'', JArr [JFloat 1, JFloat 2]),
                      (''psi'', JArr [JArr [JFloat 3], JArr [JFloat 4]]),
                      (''W'', JArr [JArr [JFloat 5, JFloat 6], JArr [JFloat 7, JFloat 8]])])
      else if s = ''ragged''
      then Inr (JObj [(''w'', JArr [JArr [JFloat 1], JArr []]), (''psi'', JArr []), (''W'', JArr [])])
      else Inl ValueError)"

definition example_fs :: filesystem where
  "example_fs p =
     (if p = ''u1/qpf_weights.json'' then Some (RegularFile ''state'')
      else if p = ''u2/qpf_weights.json'' then Some (RegularFile ''{'')
      else if p = ''u3/qpf_weights.json'' then Some (RegularFile [])
      else if p = ''u5/qpf_weights.json'' then Some (RegularFile ''ragged'')
      else if p = ''u6/qpf_weights.json'' then Some (Unreadable 4096)
      else None)"

definition example_gauss :: "nat \<Rightarrow> real" where
  "example_gauss i = real i / 10"








section \<open>Properties of the field dynamics\<close>

lemma EPS_pos: "0 < EPS" by (simp add: EPS_def)








lemma entropy_term_nonneg:
  assumes "x ^ 2 + EPS \<le> 1"
  shows "x ^ 2 * ln (x ^ 2 + EPS) \<le> (0::real)"
proof -
  have "0 < x ^ 2 + EPS" using EPS_pos by (simp add: add_nonneg_pos)
  then have "ln (x ^ 2 + EPS) \<le> 0" using assms by simp
  then show ?thesis by (simp add: mult_nonneg_nonpos)
qed

lemma exp_taylor_lower:
  assumes "0 \<le> (x::real)"
  shows "(\<Sum>m<n. x ^ m / fact m) \<le> exp x"
proof -
  obtain t where t: "exp x = (\<Sum>m<n. x ^ m / fact m) + (exp t / fact n) * x ^ n"
    using Maclaurin_exp_le[of x n] by blast
  have "0 \<le> (exp t / fact n) * x ^ n" using assms by simp
  with t show ?thesis by linarith
qed

lemma exp_taylor_upper:
  assumes "0 \<le> (x::real)" "x \<le> 2"
  shows "exp x \<le> (\<Sum>m<n. x ^ m / fact m) + 9 * x ^ n / fact n"
proof -
  obtain t where t: "\<bar>t\<bar> \<le> \<bar>x\<bar>" "exp x = (\<Sum>m<n. x ^ m / fact m) + (exp t / fact n) * x ^ n"
    using Maclaurin_exp_le[of x n] by blast
  have "t \<le> 2" using t(1) assms by linarith
  then have "exp t \<le> exp 2" by simp
  also have "exp (2::real) = exp 1 * exp 1" by (simp flip: exp_add)
  also have "\<dots> \<le> 3 * 3" by (intro mult_mono exp_le) simp_all
  finally have e9: "exp t \<le> 9" by simp
  have "(exp t / fact n) * x ^ n \<le> (9 / fact n) * x ^ n"
    using e9 assms(1) by (intro mult_right_mono divide_right_mono) simp_all
  with t(2) show ?thesis by simp
qed

lemma exp_lower_4: "4 \<le> exp (13864 / 10000 :: real)"
proof -
  have "(4::real) \<le> (\<Sum>m<8. (13864 / 10000) ^ m / fact m)"
    by (simp add: eval_nat_numeral lessThan_Suc)
  also have "\<dots> \<le> exp (13864 / 10000)" by (rule exp_taylor_lower) simp
  finally show ?thesis .
qed

lemma exp_upper_4: "exp (138627 / 100000 :: real) \<le> 1 / (1 / 4 + EPS)"
proof -
  have "exp (138627 / 100000 :: real) \<le> (\<Sum>m<10. (138627 / 100000) ^ m / fact m) + 9 * (138627 / 100000) ^ 10 / fact 10"
    by (rule exp_taylor_upper) simp_all
  also have "\<dots> \<le> 1 / (1 / 4 + EPS)"
    by (simp add: eval_nat_numeral lessThan_Suc EPS_def)
  finally show ?thesis .
qed

lemma ln_quarter_eps_bounds:
  "- (13864 / 10000) < ln (1 / 4 + EPS)" "ln (1 / 4 + EPS) \<le> - (138627 / 100000)"
proof -
  have pos: "0 < 1 / 4 + EPS" using EPS_pos by simp
  have "exp (- (13864 / 10000 :: real)) = 1 / exp (13864 / 10000)" by (simp add: exp_minus field_simps)
  also have "\<dots> \<le> 1 / 4" using exp_lower_4 by (simp add: field_simps)
  also have "\<dots> < 1 / 4 + EPS" using EPS_pos by simp
  finally have "exp (- (13864 / 10000 :: real)) < 1 / 4 + EPS" .
  then have "ln (exp (- (13864 / 10000 :: real))) < ln (1 / 4 + EPS)"
    by (subst ln_less_cancel_iff) (simp_all add: pos)
  then show "- (13864 / 10000) < ln (1 / 4 + EPS)" by simp
  have "1 / 4 + EPS \<le> 1 / exp (138627 / 100000 :: real)"
    using exp_upper_4 pos by (simp add: field_simps)
  also have "\<dots> = exp (- (138627 / 100000 :: real))" by (simp add: exp_minus field_simps)
  finally have "ln (1 / 4 + EPS) \<le> ln (exp (- (138627 / 100000 :: real)))"
    by (subst ln_le_cancel_iff) (simp_all add: pos)
  then show "ln (1 / 4 + EPS) \<le> - (138627 / 100000)" by simp
qed

lemma ln_quarter_eps_close: "\<bar>ln (1 / 4 + EPS) - ln (1 / 4)\<bar> < 1 / 10 ^ 11"
proof -
  have pos: "0 < 1 / 4 + EPS" using EPS_pos by simp
  have q: "ln (1 / 4 :: real) = - ln 4"
    using ln_inverse[of "4::real"] by (simp add: inverse_eq_divide)
  have "ln (1 + 4 * EPS) = ln ((1 / 4 + EPS) * 4)" by (simp add: algebra_simps)
  also have "\<dots> = ln (1 / 4 + EPS) + ln 4" using pos by (intro ln_mult_pos) simp_all
  finally have eq: "ln (1 / 4 + EPS) - ln (1 / 4) = ln (1 + 4 * EPS)" using q by simp
  have "ln (1 + 4 * EPS) \<le> 4 * EPS" using EPS_pos by (intro ln_add_one_self_le_self) simp
  moreover have "0 < ln (1 + 4 * EPS)" using EPS_pos by simp
  moreover have "4 * EPS < 1 / 10 ^ 11" by (simp add: EPS_def)
  ultimately show ?thesis using eq by simp
qed

text \<open>
  Claim C2. With \<open>N = 3\<close> and \<open>w = [0, 0, 0]\<close> the activation is \<open>[0.5, 0.5, 0.5]\<close>;
  its entropy is \<open>-3 * (0.25 * ln (0.25 + EPS))\<close>, which is within \<open>1e-11\<close> of
  \<open>-3 * (0.25 * ln 0.25)\<close> and lies between 1.0397 and 1.0398; with \<open>S_crit = 1.0\<close>
  the collapse triggers; the argmax of the all-equal activation is index 0; and
  \<open>collapse_weights [0, 0, 0] 0 0.5\<close> is exactly \<open>[0.5, 0, 0]\<close>, which is also what the
  collapse step of \<open>chat\<close> leaves as weights.
\<close>

theorem end_to_end_example:
  "activation [0, 0, 0] = [1 / 2, 1 / 2, 1 / 2]
   \<and> entropy [1 / 2, 1 / 2, 1 / 2] = - 3 * (1 / 4 * ln (1 / 4 + EPS))
   \<and> \<bar>entropy [1 / 2, 1 / 2, 1 / 2] - (- 3 * (1 / 4 * ln (1 / 4)))\<bar> < 1 / 10 ^ 11
   \<and> 10397 / 10000 < entropy [1 / 2, 1 / 2, 1 / 2]
   \<and> entropy [1 / 2, 1 / 2, 1 / 2] < 10398 / 10000
   \<and> check_collapse (entropy (activation [0, 0, 0])) 1
   \<and> np_argmax (activation [0, 0, 0]) = Inr 0
   \<and> collapse_weights [0, 0, 0] 0 (1 / 2) = Inr [1 / 2, 0, 0]
   \<and> chat_collapse [0, 0, 0] 1 (1 / 2) = Inr (True, 0, [1 / 2, 0, 0])"
proof -
  have a: "activation [0, 0, 0] = [1 / 2, 1 / 2, 1 / 2]" by (simp add: activation_def)
  have e: "entropy [1 / 2, 1 / 2, 1 / 2] = - 3 * (1 / 4 * ln (1 / 4 + EPS))"
    by (simp add: entropy_def power2_eq_square)
  have c: "\<bar>entropy [1 / 2, 1 / 2, 1 / 2] - (- 3 * (1 / 4 * ln (1 / 4)))\<bar> < 1 / 10 ^ 11"
    using ln_quarter_eps_close unfolding e by (simp add: abs_if split: if_splits)
  have lo: "10397 / 10000 < entropy [1 / 2, 1 / 2, 1 / 2]"
    using ln_quarter_eps_bounds(2) unfolding e by simp
  have hi: "entropy [1 / 2, 1 / 2, 1 / 2] < 10398 / 10000"
    using ln_quarter_eps_bounds(1) unfolding e by simp
  have cc: "check_collapse (entropy (activation [0, 0, 0])) 1"
    using lo unfolding a check_collapse_def by simp
  have am: "np_argmax (activation [0, 0, 0]) = Inr 0" unfolding a by simp
  have cw: "collapse_weights [0, 0, 0] 0 (1 / 2) = Inr [1 / 2, 0, 0]"
    by (simp add: collapse_weights_def)
  have ch: "chat_collapse [0, 0, 0] 1 (1 / 2) = Inr (True, 0, [1 / 2, 0, 0])"
    using cc am cw by (simp add: chat_collapse_def Let_def)
  show ?thesis using a e c lo hi cc am cw ch by blast
qed




lemma exp_40_large: "2 * 10 ^ 12 < exp (40 :: real)"
proof -
  have e1: "5 / 2 \<le> exp (1 :: real)"
    using exp_lower_Taylor_quadratic[of "1 :: real"] by simp
  have "(2 :: real) * 10 ^ 12 < (5 / 2) ^ 40" by (simp add: power_divide field_simps)
  also have "\<dots> \<le> exp (1 :: real) ^ 40" using e1 by (intro power_mono) simp_all
  also have "\<dots> = exp (40 :: real)" by (simp flip: exp_of_nat_mult)
  finally show ?thesis .
qed

lemma activation_40_square: "1 < (1 / (1 + exp (- 40 :: real))) ^ 2 + EPS"
proof -
  define e where "e = exp (- 40 :: real)"
  have epos: "0 < e" by (simp add: e_def)
  have "e = 1 / exp (40 :: real)" by (simp add: e_def exp_minus field_simps)
  also have "\<dots> < 1 / (2 * 10 ^ 12)"
    using exp_40_large by (intro divide_strict_left_mono) simp_all
  finally have esmall: "2 * e < EPS" by (simp add: EPS_def)
  have "(1 - 2 * e) * (1 + e) ^ 2 = 1 - 3 * e ^ 2 - 2 * e ^ 3"
    by (simp add: power2_eq_square power3_eq_cube algebra_simps)
  also have "\<dots> \<le> 1"
  proof -
    have "0 \<le> e ^ 2" "0 \<le> e ^ 3" using epos by simp_all
    then show ?thesis by linarith
  qed
  finally have "(1 - 2 * e) * (1 + e) ^ 2 \<le> 1" .
  then have "1 - 2 * e \<le> 1 / (1 + e) ^ 2"
    using epos by (simp add: pos_le_divide_eq)
  also have "1 / (1 + e) ^ 2 = (1 / (1 + e)) ^ 2" by (simp add: power_divide)
  finally have "1 - 2 * e \<le> (1 / (1 + e)) ^ 2" .
  then show ?thesis using esmall unfolding e_def by linarith
qed

text \<open>
  Claim C4, as stated, fails: the entropy of the real vector \<open>[2]\<close> is
  \<open>- 4 * ln (4 + EPS)\<close>, which is negative. It fails on activation vectors too: for
  the weight 40 the squared activation exceeds \<open>1 - EPS\<close>, the logarithm is positive
  and the entropy of \<open>activation [40]\<close> is negative.
\<close>

theorem entropy_negative_counterexample:
  "entropy [2] < 0 \<and> entropy (activation [40]) < 0"
proof
  have "0 < ln (4 + EPS)" by (simp add: EPS_def)
  then show "entropy [2] < 0" by (simp add: entropy_def)
next
  let ?a = "1 / (1 + exp (- 40 :: real))"
  have "0 < ln (?a ^ 2 + EPS)" using activation_40_square by simp
  moreover have "0 < ?a ^ 2"
  proof -
    have "0 < 1 + exp (- 40 :: real)" by (simp add: add_pos_pos)
    then have "0 < ?a" by simp
    then show ?thesis by simp
  qed
  ultimately have "0 < ?a ^ 2 * ln (?a ^ 2 + EPS)" by simp
  then show "entropy (activation [40]) < 0" by (simp add: entropy_def activation_def)
qed

text \<open>
  Claim C4, amended. For every real vector \<open>a\<close> the logarithms in \<open>entropy a\<close> are
  taken of positive numbers, so the entropy is defined; and \<open>entropy a \<ge> 0\<close> holds
  whenever every component satisfies \<open>a_i^2 + EPS \<le> 1\<close>.
\<close>

theorem entropy_nonneg_bounded:
  "(\<forall>x\<in>set a. 0 < x ^ 2 + EPS) \<and> ((\<forall>x\<in>set a. x ^ 2 + EPS \<le> 1) \<longrightarrow> 0 \<le> entropy a)"
proof
  show "\<forall>x\<in>set a. 0 < x ^ 2 + EPS" using EPS_pos by (simp add: add_nonneg_pos)
  show "(\<forall>x\<in>set a. x ^ 2 + EPS \<le> 1) \<longrightarrow> 0 \<le> entropy a"
  proof
    assume h: "\<forall>x\<in>set a. x ^ 2 + EPS \<le> 1"
    have "sum_list (map (\<lambda>p. p * ln (p + EPS)) (map (\<lambda>x. x ^ 2) a)) \<le> 0"
      using h by (induction a) (auto dest: entropy_term_nonneg simp: add_nonpos_nonpos)
    then show "0 \<le> entropy a" by (simp add: entropy_def)
  qed
qed

theorem entropy_nonneg_bounded_witness:
  "(1 / 2 :: real) ^ 2 + EPS \<le> 1 \<and> 0 < (1 / 2 :: real) ^ 2 + EPS \<and> 0 \<le> entropy [1 / 2]"
proof -
  have h: "(1 / 2 :: real) ^ 2 + EPS \<le> 1"
    by (simp add: EPS_def power2_eq_square)
  show ?thesis using entropy_nonneg_bounded [of "[1 / 2]"] h by simp
qed

section \<open>Properties of the event graph\<close>

subsection \<open>Association lists\<close>

lemma has_node_iff: "has_node g n \<longleftrightarrow> n \<in> fst ` set g"
  by (simp add: has_node_def map_of_eq_None_iff)


lemma length_update_present:
  "k \<in> fst ` set al \<Longrightarrow> length (AList.update k v al) = length al"
  by (induction al) auto

lemma edges_Nil: "edges [] = []"
  by (simp add: edges_def)

lemma edges_Cons: "edges (ne # g) = entry_edges ne @ edges g"
  by (cases ne) (simp add: edges_def entry_edges_def)


lemma edges_source: "(u, v, r) \<in> set (edges g) \<Longrightarrow> u \<in> fst ` set g"
  by (induction g) (auto simp: edges_Nil edges_Cons entry_edges_def)

lemma edges_iff:
  "distinct (map fst g) \<Longrightarrow>
   (u, v, r) \<in> set (edges g) \<longleftrightarrow> (\<exists>e. map_of g u = Some e \<and> (v, r) \<in> set (adj e))"
proof (induction g)
  case Nil
  then show ?case by (simp add: edges_Nil)
next
  case (Cons ne g)
  obtain k x where ne: "ne = (k, x)" by (cases ne)
  have k: "k \<notin> fst ` set g" and d: "distinct (map fst g)" using Cons.prems ne by auto
  show ?case
  proof (cases "u = k")
    case True
    have "(u, v, r) \<notin> set (edges g)" using edges_source[of u v r g] k True by blast
    then show ?thesis using True ne by (auto simp: edges_Cons entry_edges_def)
  next
    case False
    then show ?thesis using Cons.IH[OF d] ne by (auto simp: edges_Cons entry_edges_def)
  qed
qed


lemma edges_update_length:
  assumes "map_of g u = Some e"
    and "length (adj e') = length (adj e) + n"
  shows "length (edges (AList.update u e' g)) = length (edges g) + n"
  using assms(1)
proof (induction g)
  case Nil
  then show ?case by simp
next
  case (Cons ne g)
  obtain k y where ne: "ne = (k, y)" by (cases ne)
  show ?case
  proof (cases "k = u")
    case True
    then have "y = e" using Cons.prems ne by simp
    then show ?thesis using True ne assms(2) by (simp add: edges_Cons entry_edges_def)
  next
    case False
    then have "map_of g u = Some e" using Cons.prems ne by simp
    from Cons.IH[OF this] show ?thesis using False ne by (simp add: edges_Cons)
  qed
qed

subsection \<open>The invariant\<close>

lemma wf_graphI:
  assumes "distinct (map fst g)"
    and "\<And>n e. map_of g n = Some e \<Longrightarrow> distinct (map fst (adj e))"
    and "\<And>n e v. map_of g n = Some e \<Longrightarrow> v \<in> fst ` set (adj e) \<Longrightarrow> has_node g v"
  shows "wf_graph g"
  unfolding wf_graph_def
proof (intro conjI ballI)
  show "distinct (map fst g)" by (rule assms(1))
next
  fix ne assume "ne \<in> set g"
  then have m: "map_of g (fst ne) = Some (snd ne)" using assms(1) by simp
  show "distinct (map fst (adj (snd ne)))" using assms(2)[OF m] .
next
  fix ne v assume "ne \<in> set g" and v: "v \<in> set (map fst (adj (snd ne)))"
  then have m: "map_of g (fst ne) = Some (snd ne)" using assms(1) by simp
  show "has_node g v" using assms(3)[OF m] v by simp
qed

lemma wf_graphD:
  assumes "wf_graph g"
  shows "distinct (map fst g)"
    and "map_of g n = Some e \<Longrightarrow> distinct (map fst (adj e))"
    and "map_of g n = Some e \<Longrightarrow> v \<in> fst ` set (adj e) \<Longrightarrow> has_node g v"
proof -
  show d: "distinct (map fst g)" using assms by (simp add: wf_graph_def)
  {
    assume "map_of g n = Some e"
    then have "(n, e) \<in> set g" by (rule map_of_SomeD)
    then show "distinct (map fst (adj e))" using assms by (force simp: wf_graph_def)
  }
  {
    assume "map_of g n = Some e" and v: "v \<in> fst ` set (adj e)"
    then have "(n, e) \<in> set g" by (simp add: map_of_SomeD)
    then show "has_node g v" using assms v by (force simp: wf_graph_def)
  }
qed

lemma wf_empty: "wf_graph []"
  by (simp add: wf_graph_def)

lemma has_node_add_node: "has_node (add_node g n ev) v \<longleftrightarrow> has_node g v \<or> v = n"
proof (cases "map_of g n")
  case None
  then show ?thesis by (auto simp: add_node_def has_node_iff)
next
  case (Some e)
  then have "n \<in> fst ` set g" by (meson domI domIff map_of_eq_None_iff)
  then show ?thesis using Some by (auto simp: add_node_def has_node_iff dom_update)
qed

lemma has_node_add_edge: "has_node (add_edge g u w r) v \<longleftrightarrow> has_node g v"
proof (cases "map_of g u")
  case None
  then show ?thesis by (simp add: add_edge_def)
next
  case (Some e)
  then have "u \<in> fst ` set g" by (meson domI domIff map_of_eq_None_iff)
  then show ?thesis using Some by (auto simp: add_edge_def has_node_iff dom_update)
qed

lemma map_of_add_node:
  "map_of (add_node g n ev) m =
     (if m = n then Some (case map_of g n of None \<Rightarrow> \<lparr>event = ev, adj = []\<rparr> | Some e \<Rightarrow> e\<lparr>event := ev\<rparr>)
      else map_of g m)"
  by (auto simp: add_node_def update_conv' map_add_def split: option.splits)

lemma map_of_add_edge:
  "map_of (add_edge g u v r) m =
     (case map_of g u of
        None \<Rightarrow> map_of g m
      | Some e \<Rightarrow> if m = u then Some (e\<lparr>adj := AList.update v r (adj e)\<rparr>) else map_of g m)"
  by (auto simp: add_edge_def update_conv' split: option.splits)

lemma distinct_add_node: "distinct (map fst g) \<Longrightarrow> distinct (map fst (add_node g n ev))"
  by (auto simp: add_node_def distinct_update map_of_eq_None_iff split: option.splits)

lemma distinct_add_edge: "distinct (map fst g) \<Longrightarrow> distinct (map fst (add_edge g u v r))"
  by (auto simp: add_edge_def distinct_update split: option.splits)

lemma wf_add_node:
  assumes "wf_graph g"
  shows "wf_graph (add_node g n ev)"
proof (rule wf_graphI)
  show "distinct (map fst (add_node g n ev))"
    using wf_graphD(1)[OF assms] by (rule distinct_add_node)
next
  fix m e assume "map_of (add_node g n ev) m = Some e"
  then show "distinct (map fst (adj e))"
    using wf_graphD(2)[OF assms]
    by (auto simp: map_of_add_node split: if_splits option.splits)
next
  fix m e v assume a: "map_of (add_node g n ev) m = Some e" "v \<in> fst ` set (adj e)"
  then obtain e0 where "map_of g m = Some e0" "adj e0 = adj e"
    by (auto simp: map_of_add_node split: if_splits option.splits)
  then have "has_node g v" using wf_graphD(3)[OF assms, of m e0 v] a(2) by simp
  then show "has_node (add_node g n ev) v" by (simp add: has_node_add_node)
qed

lemma wf_add_edge:
  assumes "wf_graph g" "has_node g v"
  shows "wf_graph (add_edge g u v r)"
proof (rule wf_graphI)
  show "distinct (map fst (add_edge g u v r))"
    using wf_graphD(1)[OF assms(1)] by (rule distinct_add_edge)
next
  fix m e assume "map_of (add_edge g u v r) m = Some e"
  then show "distinct (map fst (adj e))"
    using wf_graphD(2)[OF assms(1)]
    by (auto simp: map_of_add_edge distinct_update split: if_splits option.splits)
next
  fix m e x assume a: "map_of (add_edge g u v r) m = Some e" "x \<in> fst ` set (adj e)"
  then obtain e0 where e0: "map_of g m = Some e0" "fst ` set (adj e) \<subseteq> insert v (fst ` set (adj e0))"
    by (auto simp: map_of_add_edge dom_update split: if_splits option.splits)
  then have "x = v \<or> x \<in> fst ` set (adj e0)" using a(2) by blast
  then have "has_node g x" using wf_graphD(3)[OF assms(1) e0(1), of x] assms(2) by blast
  then show "has_node (add_edge g u v r) x" by (simp add: has_node_add_edge)
qed

lemma wf_link_events: "wf_graph g \<Longrightarrow> wf_graph (snd (link_events g s d r))"
  by (simp add: link_events_def wf_add_edge)

lemma wf_add_event: "wf_graph g \<Longrightarrow> wf_graph (snd (add_event g ev))"
  by (auto simp: add_event_def Let_def wf_add_node wf_link_events
           split: sum.splits list.splits)

lemma wf_fold_add_node:
  "wf_graph acc \<Longrightarrow> wf_graph (fold (\<lambda>ne g. add_node g (fst ne) (snd ne)) xs acc)"
  by (induction xs arbitrary: acc) (simp_all add: wf_add_node)

lemma wf_add_links: "wf_graph h \<Longrightarrow> add_links h ls = Inr g \<Longrightarrow> wf_graph g"
  by (induction h ls rule: add_links.induct) (auto simp: wf_add_edge split: if_splits)

lemma wf_load_json:
  assumes "load_json isoparse data = Inr g"
  shows "wf_graph g"
proof -
  from assms obtain nodes_in links_in where
    "add_links (fold (\<lambda>ne g. add_node g (fst ne) (snd ne)) nodes_in []) links_in = Inr g"
    by (auto simp: load_json_def Let_def split: json.splits if_splits option.splits sum.splits)
  then show ?thesis using wf_add_links[OF wf_fold_add_node[OF wf_empty]] by blast
qed

lemma reachable_wf: "reachable g \<Longrightarrow> wf_graph g"
  by (induction rule: reachable.induct)
     (simp_all add: wf_empty wf_add_event wf_link_events wf_load_json)

lemma wf_distinct_edges:
  assumes "wf_graph g"
  shows "distinct (map (\<lambda>(u, v, r). (u, v)) (edges g))"
proof -
  have "distinct (map fst g) \<Longrightarrow> (\<forall>ne\<in>set g. distinct (map fst (adj (snd ne))))
        \<Longrightarrow> distinct (map (\<lambda>(u, v, r). (u, v)) (edges g))"
  proof (induction g)
    case Nil
    then show ?case by (simp add: edges_Nil)
  next
    case (Cons ne g)
    have 1: "distinct (map (\<lambda>(u, v, r). (u, v)) (entry_edges ne))"
    proof -
      have "map (\<lambda>(u, v, r). (u, v)) (entry_edges ne) = map (\<lambda>v. (fst ne, v)) (map fst (adj (snd ne)))"
        by (simp add: entry_edges_def case_prod_beta)
      moreover have "distinct (map fst (adj (snd ne)))" using Cons.prems(2) by simp
      ultimately show ?thesis by (simp add: distinct_map inj_on_def)
    qed
    have 2: "distinct (map (\<lambda>(u, v, r). (u, v)) (edges g))"
      using Cons by simp
    have 3: "set (map (\<lambda>(u, v, r). (u, v)) (entry_edges ne)) \<inter> set (map (\<lambda>(u, v, r). (u, v)) (edges g)) = {}"
    proof -
      have "fst ne \<notin> fst ` set g" using Cons.prems(1) by simp
      then have "\<And>v r. (fst ne, v, r) \<notin> set (edges g)" using edges_source by blast
      then show ?thesis by (fastforce simp: entry_edges_def)
    qed
    show ?case using 1 2 3 by (simp add: edges_Cons)
  qed
  then show ?thesis using assms by (simp add: wf_graph_def)
qed

lemma update_member: "(k, v) \<in> set (AList.update k v al)"
  by (induction al) auto

lemma update_set_present:
  "distinct (map fst al) \<Longrightarrow> map_of al k = Some v0 \<Longrightarrow>
   set (AList.update k v al) = insert (k, v) (set al - {(k, v0)})"
proof (induction al)
  case Nil
  then show ?case by simp
next
  case (Cons a al)
  obtain k' v' where a: "a = (k', v')" by (cases a)
  show ?case
  proof (cases "k' = k")
    case True
    then have "v' = v0" using Cons.prems a by simp
    moreover have "(k, v0) \<notin> set al" using Cons.prems(1) a True by (auto simp: image_iff)
    ultimately show ?thesis using a True by auto
  next
    case False
    then have "map_of al k = Some v0" "distinct (map fst al)" using Cons.prems a by auto
    from Cons.IH[OF this(2) this(1)] show ?thesis using a False by auto
  qed
qed

lemma nodes_add_edge: "nodes (add_edge g u v r) = nodes g"
proof (cases "map_of g u")
  case None
  then show ?thesis by (simp add: add_edge_def)
next
  case (Some e)
  then have "u \<in> fst ` set g" by (meson domI domIff map_of_eq_None_iff)
  then show ?thesis using Some by (simp add: add_edge_def nodes_def update_keys)
qed

lemma length_add_edge: "length (add_edge g u v r) = length g"
  using nodes_add_edge[of g u v r] unfolding nodes_def by (metis length_map)

lemma edge_relation_add_edge:
  "has_node g s \<Longrightarrow>
   edge_relation (add_edge g s d r) u v = (if u = s \<and> v = d then Some r else edge_relation g u v)"
  by (auto simp: edge_relation_def map_of_add_edge has_node_def update_conv' split: option.splits)

lemma edge_in_edges_add_edge:
  assumes "has_node g s"
  shows "(s, d, r) \<in> set (edges (add_edge g s d r))"
proof -
  from assms obtain e where e: "map_of g s = Some e" by (auto simp: has_node_def)
  let ?e' = "e\<lparr>adj := AList.update d r (adj e)\<rparr>"
  have "(s, ?e') \<in> set (AList.update s ?e' g)" by (rule update_member)
  then have "(s, ?e') \<in> set (add_edge g s d r)" using e by (simp add: add_edge_def)
  moreover have "(s, d, r) \<in> set (entry_edges (s, ?e'))"
    using update_member[of d r "adj e"] by (force simp: entry_edges_def)
  ultimately show ?thesis by (force simp: edges_def entry_edges_def)
qed

text \<open>
  Claim C7. \<open>link_events(src, dst, relation)\<close> raises the missing-node \<open>KeyError\<close>
  if and only if at least one of \<open>src\<close> and \<open>dst\<close> is not a node of the graph; whenever
  it does not succeed the error is that \<open>KeyError\<close> and the graph is unchanged; and when
  both endpoints exist it succeeds, the edge from \<open>src\<close> to \<open>dst\<close> is in the graph with
  the given relation label, the nodes are the same and no other pair of nodes changes
  its label.
\<close>

theorem link_events_missing_node:
  "(fst (link_events g src_id dst_id relation) = Inl KeyError
      \<longleftrightarrow> \<not> has_node g src_id \<or> \<not> has_node g dst_id)
   \<and> (fst (link_events g src_id dst_id relation) \<noteq> Inr ()
      \<longrightarrow> link_events g src_id dst_id relation = (Inl KeyError, g))
   \<and> (has_node g src_id \<and> has_node g dst_id
      \<longrightarrow> fst (link_events g src_id dst_id relation) = Inr ()
        \<and> (src_id, dst_id, relation) \<in> set (edges (snd (link_events g src_id dst_id relation)))
        \<and> edge_relation (snd (link_events g src_id dst_id relation)) src_id dst_id = Some relation
        \<and> nodes (snd (link_events g src_id dst_id relation)) = nodes g
        \<and> (\<forall>u v. (u, v) \<noteq> (src_id, dst_id)
             \<longrightarrow> edge_relation (snd (link_events g src_id dst_id relation)) u v = edge_relation g u v))"
  by (auto simp: link_events_def edge_relation_add_edge nodes_add_edge edge_in_edges_add_edge)

lemma edge_relation_endpoints:
  assumes "wf_graph g" "edge_relation g s d = Some r"
  shows "has_node g s" "has_node g d" "(s, d, r) \<in> set (edges g)"
proof -
  from assms(2) obtain e where e: "map_of g s = Some e" "map_of (adj e) d = Some r"
    by (auto simp: edge_relation_def split: option.splits)
  show "has_node g s" using e(1) by (simp add: has_node_def)
  have m: "(d, r) \<in> set (adj e)" using e(2) by (rule map_of_SomeD)
  then have "d \<in> fst ` set (adj e)" by force
  then show "has_node g d" using wf_graphD(3)[OF assms(1) e(1)] by blast
  show "(s, d, r) \<in> set (edges g)"
    using edges_iff[OF wf_graphD(1)[OF assms(1)]] e(1) m by blast
qed

lemma edges_add_edge_replace:
  assumes "wf_graph g" "edge_relation g s d = Some r1"
  shows "set (edges (add_edge g s d r2)) = insert (s, d, r2) (set (edges g) - {(s, d, r1)})"
    and "length (edges (add_edge g s d r2)) = length (edges g)"
proof -
  from assms(2) obtain e where e: "map_of g s = Some e" "map_of (adj e) d = Some r1"
    by (auto simp: edge_relation_def split: option.splits)
  let ?e' = "e\<lparr>adj := AList.update d r2 (adj e)\<rparr>"
  have g': "add_edge g s d r2 = AList.update s ?e' g" using e(1) by (simp add: add_edge_def)
  have da: "distinct (map fst (adj e))" using wf_graphD(2)[OF assms(1) e(1)] .
  have dg: "distinct (map fst g)" using wf_graphD(1)[OF assms(1)] .
  have dg': "distinct (map fst (add_edge g s d r2))" using dg by (rule distinct_add_edge)
  have sa: "set (adj ?e') = insert (d, r2) (set (adj e) - {(d, r1)})"
    using update_set_present[OF da e(2)] by simp
  have "d \<in> fst ` set (adj e)" using e(2) by (meson domI domIff map_of_eq_None_iff)
  then have "length (adj ?e') = length (adj e) + 0" by (simp add: length_update_present)
  from edges_update_length[OF e(1) this] show "length (edges (add_edge g s d r2)) = length (edges g)"
    unfolding g' by simp
  show "set (edges (add_edge g s d r2)) = insert (s, d, r2) (set (edges g) - {(s, d, r1)})"
  proof (rule set_eqI)
    fix x :: "string \<times> string \<times> string"
    obtain u v r where x: "x = (u, v, r)" by (cases x)
    have A: "(u, v, r) \<in> set (edges (add_edge g s d r2))
          \<longleftrightarrow> (\<exists>e'. map_of (add_edge g s d r2) u = Some e' \<and> (v, r) \<in> set (adj e'))"
      by (rule edges_iff[OF dg'])
    have B: "\<And>u v r. (u, v, r) \<in> set (edges g)
          \<longleftrightarrow> (\<exists>e'. map_of g u = Some e' \<and> (v, r) \<in> set (adj e'))"
      by (rule edges_iff[OF dg])
    have "(u, v, r) \<in> set (edges (add_edge g s d r2))
          \<longleftrightarrow> (u, v, r) \<in> insert (s, d, r2) (set (edges g) - {(s, d, r1)})"
      unfolding A using e(1) sa by (auto simp: map_of_add_edge B)
    then show "x \<in> set (edges (add_edge g s d r2))
          \<longleftrightarrow> x \<in> insert (s, d, r2) (set (edges g) - {(s, d, r1)})" using x by simp
  qed
qed

text \<open>
  Claim C10. In every graph a \<open>MemoryGraph\<close> can hold, no two edges join the same
  ordered pair of nodes; and when an edge from \<open>src\<close> to \<open>dst\<close> exists with any label
  \<open>r1\<close>, \<open>link_events(src, dst, r2)\<close> succeeds, the edge now carries \<open>r2\<close> in place of
  \<open>r1\<close>, every other edge is as before, and the node count and the edge count are
  unchanged.
\<close>

theorem link_events_replaces_label:
  assumes "reachable g"
  shows "distinct (map (\<lambda>(u, v, r). (u, v)) (edges g))
         \<and> (\<forall>r1. edge_relation g src_id dst_id = Some r1 \<longrightarrow>
               fst (link_events g src_id dst_id r2) = Inr ()
             \<and> edge_relation (snd (link_events g src_id dst_id r2)) src_id dst_id = Some r2
             \<and> set (edges (snd (link_events g src_id dst_id r2)))
                 = insert (src_id, dst_id, r2) (set (edges g) - {(src_id, dst_id, r1)})
             \<and> number_of_nodes (snd (link_events g src_id dst_id r2)) = number_of_nodes g
             \<and> number_of_edges (snd (link_events g src_id dst_id r2)) = number_of_edges g
             \<and> distinct (map (\<lambda>(u, v, r). (u, v)) (edges (snd (link_events g src_id dst_id r2)))))"
proof -
  have wf: "wf_graph g" using assms by (rule reachable_wf)
  have d: "distinct (map (\<lambda>(u, v, r). (u, v)) (edges g))" using wf by (rule wf_distinct_edges)
  {
    fix r1 assume er: "edge_relation g src_id dst_id = Some r1"
    have hs: "has_node g src_id" "has_node g dst_id" using edge_relation_endpoints[OF wf er] by blast+
    then have le: "link_events g src_id dst_id r2 = (Inr (), add_edge g src_id dst_id r2)"
      by (simp add: link_events_def)
    have wf': "wf_graph (add_edge g src_id dst_id r2)" using wf hs(2) by (rule wf_add_edge)
    have "fst (link_events g src_id dst_id r2) = Inr ()
             \<and> edge_relation (snd (link_events g src_id dst_id r2)) src_id dst_id = Some r2
             \<and> set (edges (snd (link_events g src_id dst_id r2)))
                 = insert (src_id, dst_id, r2) (set (edges g) - {(src_id, dst_id, r1)})
             \<and> number_of_nodes (snd (link_events g src_id dst_id r2)) = number_of_nodes g
             \<and> number_of_edges (snd (link_events g src_id dst_id r2)) = number_of_edges g
             \<and> distinct (map (\<lambda>(u, v, r). (u, v)) (edges (snd (link_events g src_id dst_id r2))))"
      unfolding le
      using edges_add_edge_replace[OF wf er, of r2] wf_distinct_edges[OF wf']
      by (simp add: edge_relation_add_edge hs(1) number_of_nodes_def number_of_edges_def length_add_edge)
  }
  with d show ?thesis by blast
qed









lemmas eval_graph = add_event_def add_node_def nodes_def node_timestamp_def sort_reverse_def
  comparable_def aware_def utc_us_def link_events_def has_node_def add_edge_def edges_def
  ev_a_def ev_b_def ev_c_def graph_ab_def

lemma graph_ab_built: "snd (add_event (snd (add_event [] ev_a)) ev_b) = graph_ab"
  by (simp add: eval_graph)

lemma graph_ab_reachable: "reachable graph_ab"
  using reachable.add_event[OF reachable.add_event[OF reachable.empty, of ev_a], of ev_b]
  by (simp only: graph_ab_built)

lemma add_event_graph_ab: "add_event graph_ab ev_c =
     (Inr (), [(''a'', \<lparr>event = ev_a, adj = [(''b'', ''next_in_time''), (''c'', ''next_in_time'')]\<rparr>),
               (''b'', \<lparr>event = ev_b, adj = []\<rparr>),
               (''c'', \<lparr>event = ev_c, adj = []\<rparr>)])"
  by (simp add: eval_graph)


text \<open>
  Witness for C7: linking \<open>b\<close> to \<open>a\<close> in \<open>graph_ab\<close> succeeds, linking \<open>a\<close> to the
  absent node \<open>z\<close> raises \<open>KeyError\<close> and leaves the graph as it was.
\<close>

theorem link_events_missing_node_witness:
  "has_node graph_ab ''b'' \<and> has_node graph_ab ''a'' \<and> \<not> has_node graph_ab ''z''
   \<and> fst (link_events graph_ab ''b'' ''a'' ''causal'') = Inr ()
   \<and> (''b'', ''a'', ''causal'') \<in> set (edges (snd (link_events graph_ab ''b'' ''a'' ''causal'')))
   \<and> edge_relation (snd (link_events graph_ab ''b'' ''a'' ''causal'')) ''b'' ''a'' = Some ''causal''
   \<and> nodes (snd (link_events graph_ab ''b'' ''a'' ''causal'')) = nodes graph_ab
   \<and> fst (link_events graph_ab ''a'' ''z'' ''causal'') = Inl KeyError
   \<and> link_events graph_ab ''a'' ''z'' ''causal'' = (Inl KeyError, graph_ab)"
proof -
  have h: "has_node graph_ab ''b''" "has_node graph_ab ''a''" "\<not> has_node graph_ab ''z''"
    by (simp_all add: eval_graph)
  have A: "fst (link_events graph_ab ''b'' ''a'' ''causal'') = Inr ()
        \<and> (''b'', ''a'', ''causal'') \<in> set (edges (snd (link_events graph_ab ''b'' ''a'' ''causal'')))
        \<and> edge_relation (snd (link_events graph_ab ''b'' ''a'' ''causal'')) ''b'' ''a'' = Some ''causal''
        \<and> nodes (snd (link_events graph_ab ''b'' ''a'' ''causal'')) = nodes graph_ab
        \<and> (\<forall>u v. (u, v) \<noteq> (''b'', ''a'')
             \<longrightarrow> edge_relation (snd (link_events graph_ab ''b'' ''a'' ''causal'')) u v = edge_relation graph_ab u v)"
    by (rule link_events_missing_node[of graph_ab "''b''" "''a''" "''causal''",
          THEN conjunct2, THEN conjunct2, THEN mp, OF conjI[OF h(1) h(2)]])
  have B: "fst (link_events graph_ab ''a'' ''z'' ''causal'') = Inl KeyError"
    using link_events_missing_node[of graph_ab "''a''" "''z''" "''causal''", THEN conjunct1] h(3)
    by simp
  then have "fst (link_events graph_ab ''a'' ''z'' ''causal'') \<noteq> Inr ()" by simp
  then have C: "link_events graph_ab ''a'' ''z'' ''causal'' = (Inl KeyError, graph_ab)"
    by (rule link_events_missing_node[of graph_ab "''a''" "''z''" "''causal''",
          THEN conjunct2, THEN conjunct1, THEN mp])
  show ?thesis using h A B C by simp
qed

text \<open>
  Witness for C10: relabelling the \<open>next_in_time\<close> edge from \<open>a\<close> to \<open>b\<close> of
  \<open>graph_ab\<close> leaves one edge, labelled \<open>causal\<close>.
\<close>

theorem link_events_replaces_label_witness:
  "reachable graph_ab
   \<and> edge_relation graph_ab ''a'' ''b'' = Some ''next_in_time''
   \<and> distinct (map (\<lambda>(u, v, r). (u, v)) (edges graph_ab))
   \<and> fst (link_events graph_ab ''a'' ''b'' ''causal'') = Inr ()
   \<and> edge_relation (snd (link_events graph_ab ''a'' ''b'' ''causal'')) ''a'' ''b'' = Some ''causal''
   \<and> set (edges (snd (link_events graph_ab ''a'' ''b'' ''causal'')))
       = insert (''a'', ''b'', ''causal'') (set (edges graph_ab) - {(''a'', ''b'', ''next_in_time'')})
   \<and> number_of_nodes (snd (link_events graph_ab ''a'' ''b'' ''causal'')) = number_of_nodes graph_ab
   \<and> number_of_edges (snd (link_events graph_ab ''a'' ''b'' ''causal'')) = number_of_edges graph_ab
   \<and> edges (snd (link_events graph_ab ''a'' ''b'' ''causal'')) = [(''a'', ''b'', ''causal'')]"
proof -
  have r: "reachable graph_ab" by (rule graph_ab_reachable)
  have e: "edge_relation graph_ab ''a'' ''b'' = Some ''next_in_time''"
    by (simp add: edge_relation_def eval_graph)
  have x: "edges (snd (link_events graph_ab ''a'' ''b'' ''causal'')) = [(''a'', ''b'', ''causal'')]"
    by (simp add: eval_graph)
  note L = link_events_replaces_label[OF r, of "''a''" "''b''" "''causal''"]
  have d: "distinct (map (\<lambda>(u, v, r). (u, v)) (edges graph_ab))" by (rule L[THEN conjunct1])
  have m: "fst (link_events graph_ab ''a'' ''b'' ''causal'') = Inr ()
   \<and> edge_relation (snd (link_events graph_ab ''a'' ''b'' ''causal'')) ''a'' ''b'' = Some ''causal''
   \<and> set (edges (snd (link_events graph_ab ''a'' ''b'' ''causal'')))
       = insert (''a'', ''b'', ''causal'') (set (edges graph_ab) - {(''a'', ''b'', ''next_in_time'')})
   \<and> number_of_nodes (snd (link_events graph_ab ''a'' ''b'' ''causal'')) = number_of_nodes graph_ab
   \<and> number_of_edges (snd (link_events graph_ab ''a'' ''b'' ''causal'')) = number_of_edges graph_ab
   \<and> distinct (map (\<lambda>(u, v, r). (u, v)) (edges (snd (link_events graph_ab ''a'' ''b'' ''causal''))))"
    by (rule L[THEN conjunct2, THEN spec, THEN mp, OF e])
  show ?thesis
    apply (intro conjI)
    apply (rule r)
    apply (rule e)
    apply (rule d)
    apply (rule m[THEN conjunct1])
    apply (rule m[THEN conjunct2, THEN conjunct1])
    apply (rule m[THEN conjunct2, THEN conjunct2, THEN conjunct1])
    apply (rule m[THEN conjunct2, THEN conjunct2, THEN conjunct2, THEN conjunct1])
    apply (rule m[THEN conjunct2, THEN conjunct2, THEN conjunct2, THEN conjunct2, THEN conjunct1])
    apply (rule x)
    done
qed

section \<open>Properties of the semantic retrieval\<close>





lemma slice_from_zero: "slice_from 0 xs = xs"
  by (simp add: slice_from_def)




text \<open>
  Claim C9. On a graph without events \<open>retrieve_semantic(q, k)\<close> raises, for every
  query and every \<open>k\<close> (and every embedding function): unpacking the empty candidate
  list fails with \<open>ValueError\<close>, and no result list is returned. Through the cache the
  call raises the same error and leaves the cache as it was, whenever the cache holds no
  result for \<open>(q, k)\<close> (it can only hold one from a call made when the graph had events).
\<close>

theorem retrieve_semantic_empty_graph:
  "retrieve_semantic embedder pystr [] query k = Inl ValueError
   \<and> (map_of cache (query, k) = None
        \<longrightarrow> retrieve_semantic_lru embedder pystr cache [] query k = (Inl ValueError, cache))"
  by (simp add: retrieve_semantic_def retrieve_semantic_lru_def)

theorem retrieve_semantic_empty_graph_witness:
  "map_of ([] :: lru) (''q'', 3) = None
   \<and> retrieve_semantic unit_embedder no_str [] ''q'' 3 = Inl ValueError
   \<and> retrieve_semantic_lru unit_embedder no_str [] [] ''q'' 3 = (Inl ValueError, [])"
  using retrieve_semantic_empty_graph [of unit_embedder no_str "''q''" 3 "[]"] by simp







section \<open>Properties of loading the field state\<close>

lemma randn_shape: "shape (fst (randn gauss dims pos)) = dims"
  "length (flat (fst (randn gauss dims pos))) = prod_list dims"
  "snd (randn gauss dims pos) = pos + prod_list dims"
  by (simp_all add: randn_def)

lemma fresh_state_shapes:
  "fresh_state gauss N D pos = ((w, psi, W), pos') \<Longrightarrow>
   shape w = [N] \<and> length (flat w) = N
   \<and> shape psi = [N, D] \<and> length (flat psi) = N * D
   \<and> shape W = [N, N] \<and> length (flat W) = N * N
   \<and> pos' = pos + N + N * D + N * N"
  by (auto simp: fresh_state_def randn_def Let_def)

lemma load_result:
  "load_qpf_math_state json_load gauss fs user_dir N D pos =
     (let path = os_path_join user_dir ''qpf_weights.json''
      in case fs path of
           None \<Rightarrow> Inr (fresh_state gauss N D pos)
         | Some (RegularFile content) \<Rightarrow>
             (if content = [] then Inr (fresh_state gauss N D pos)
              else (case read_state json_load fs path of
                      Inr st \<Rightarrow> Inr (st, pos)
                    | Inl e \<Rightarrow> Inr (fresh_state gauss N D pos)))
         | Some (Unreadable n) \<Rightarrow> Inr (fresh_state gauss N D pos))"
  by (auto simp: load_qpf_math_state_def os_path_exists_def os_path_getsize_def read_state_def
        read_file_def Let_def split: option.splits fs_entry.splits sum.splits)

lemma read_state_good:
  assumes "fs path = Some (RegularFile content)" "json_load content = Inr (JObj kvs)"
    "json_get kvs ''w'' = Some jw" "json_get kvs ''psi'' = Some jpsi" "json_get kvs ''W'' = Some jW"
    "np_array jw = Inr w" "np_array jpsi = Inr psi" "np_array jW = Inr W"
  shows "read_state json_load fs path = Inr (w, psi, W)"
  using assms by (simp add: read_state_def read_file_def data_item_def)

lemma read_state_parse_error:
  assumes "fs path = Some (RegularFile content)" "json_load content = Inl e"
  shows "read_state json_load fs path = Inl e"
  using assms by (simp add: read_state_def read_file_def)

text \<open>
  Claim C8. For every user directory, file system, parser and generator state,
  \<open>load_qpf_math_state\<close> returns a state and raises nothing. When the weights file is
  missing, is empty, fails to parse, or the \<open>try\<close> body raises for any other reason, the
  result is the freshly drawn state: \<open>w\<close> of shape \<open>[N]\<close>, \<open>psi\<close> of shape \<open>[N, D]\<close> and
  \<open>W\<close> of shape \<open>[N, N]\<close>, taken from consecutive samples of the generator. When the file
  is not empty and parses to an object whose entries \<open>w\<close>, \<open>psi\<close> and \<open>W\<close> are arrays,
  the result is exactly these three arrays and the generator is untouched.
\<close>

theorem load_qpf_math_state_falls_back:
  fixes fs :: filesystem and user_dir :: string
  defines "path \<equiv> os_path_join user_dir ''qpf_weights.json''"
  shows "(\<exists>w psi W pos'. load_qpf_math_state json_load gauss fs user_dir N D pos = Inr ((w, psi, W), pos'))
     \<and> (fs path = None \<or> fs path = Some (RegularFile [])
          \<or> (\<exists>content e. fs path = Some (RegularFile content) \<and> json_load content = Inl e)
          \<or> (\<exists>e. read_state json_load fs path = Inl e)
        \<longrightarrow> load_qpf_math_state json_load gauss fs user_dir N D pos = Inr (fresh_state gauss N D pos))
     \<and> (\<exists>w psi W. fresh_state gauss N D pos = ((w, psi, W), pos + N + N * D + N * N)
          \<and> shape w = [N] \<and> length (flat w) = N
          \<and> shape psi = [N, D] \<and> length (flat psi) = N * D
          \<and> shape W = [N, N] \<and> length (flat W) = N * N)
     \<and> (\<forall>content kvs jw jpsi jW w psi W.
          fs path = Some (RegularFile content) \<and> content \<noteq> []
          \<and> json_load content = Inr (JObj kvs)
          \<and> json_get kvs ''w'' = Some jw \<and> json_get kvs ''psi'' = Some jpsi \<and> json_get kvs ''W'' = Some jW
          \<and> np_array jw = Inr w \<and> np_array jpsi = Inr psi \<and> np_array jW = Inr W
        \<longrightarrow> load_qpf_math_state json_load gauss fs user_dir N D pos = Inr ((w, psi, W), pos))"
proof (intro conjI)
  show "\<exists>w psi W pos'. load_qpf_math_state json_load gauss fs user_dir N D pos = Inr ((w, psi, W), pos')"
    unfolding load_result Let_def
    by (auto split: option.splits fs_entry.splits sum.splits) (metis surj_pair)+
next
  show "fs path = None \<or> fs path = Some (RegularFile [])
          \<or> (\<exists>content e. fs path = Some (RegularFile content) \<and> json_load content = Inl e)
          \<or> (\<exists>e. read_state json_load fs path = Inl e)
        \<longrightarrow> load_qpf_math_state json_load gauss fs user_dir N D pos = Inr (fresh_state gauss N D pos)"
    unfolding load_result Let_def path_def[symmetric]
    by (auto split: option.splits fs_entry.splits sum.splits simp: read_state_parse_error)
next
  obtain w psi W pos' where f: "fresh_state gauss N D pos = ((w, psi, W), pos')"
    by (metis surj_pair)
  from fresh_state_shapes[OF f] f
  show "\<exists>w psi W. fresh_state gauss N D pos = ((w, psi, W), pos + N + N * D + N * N)
          \<and> shape w = [N] \<and> length (flat w) = N
          \<and> shape psi = [N, D] \<and> length (flat psi) = N * D
          \<and> shape W = [N, N] \<and> length (flat W) = N * N"
    by (intro exI[of _ w] exI[of _ psi] exI[of _ W]) simp
next
  show "\<forall>content kvs jw jpsi jW w psi W.
          fs path = Some (RegularFile content) \<and> content \<noteq> []
          \<and> json_load content = Inr (JObj kvs)
          \<and> json_get kvs ''w'' = Some jw \<and> json_get kvs ''psi'' = Some jpsi \<and> json_get kvs ''W'' = Some jW
          \<and> np_array jw = Inr w \<and> np_array jpsi = Inr psi \<and> np_array jW = Inr W
        \<longrightarrow> load_qpf_math_state json_load gauss fs user_dir N D pos = Inr ((w, psi, W), pos)"
  proof (intro allI impI, elim conjE)
    fix content kvs jw jpsi jW w psi W
    assume a: "fs path = Some (RegularFile content)" "content \<noteq> []"
      "json_load content = Inr (JObj kvs)"
      "json_get kvs ''w'' = Some jw" "json_get kvs ''psi'' = Some jpsi" "json_get kvs ''W'' = Some jW"
      "np_array jw = Inr w" "np_array jpsi = Inr psi" "np_array jW = Inr W"
    have "read_state json_load fs path = Inr (w, psi, W)"
      using a(1) a(3-9) by (rule read_state_good)
    then show "load_qpf_math_state json_load gauss fs user_dir N D pos = Inr ((w, psi, W), pos)"
      unfolding load_result Let_def path_def[symmetric] using a(1,2) by simp
  qed
qed

lemmas eval_state = example_fs_def example_json_load_def example_gauss_def os_path_join_def
  fresh_state_def randn_def np_array_def json_get_def

lemma fresh_example:
  "fresh_state example_gauss 2 1 0 =
     ((\<lparr>shape = [2], flat = [JFloat 0, JFloat (1 / 10)]\<rparr>,
       \<lparr>shape = [2, 1], flat = [JFloat (2 / 10), JFloat (3 / 10)]\<rparr>,
       \<lparr>shape = [2, 2], flat = [JFloat (4 / 10), JFloat (5 / 10), JFloat (6 / 10), JFloat (7 / 10)]\<rparr>), 8)"
  by (simp add: eval_state upt_rec)

text \<open>
  Witness for C8: the missing, the empty, the unparsable and the ragged file each give
  the fresh state; the stored state is returned as stored.
\<close>

theorem load_qpf_math_state_falls_back_witness:
  "example_fs (os_path_join ''u4'' ''qpf_weights.json'') = None
   \<and> load_qpf_math_state example_json_load example_gauss example_fs ''u4'' 2 1 0
       = Inr (fresh_state example_gauss 2 1 0)
   \<and> example_fs (os_path_join ''u3'' ''qpf_weights.json'') = Some (RegularFile [])
   \<and> load_qpf_math_state example_json_load example_gauss example_fs ''u3'' 2 1 0
       = Inr (fresh_state example_gauss 2 1 0)
   \<and> example_fs (os_path_join ''u2'' ''qpf_weights.json'') = Some (RegularFile ''{'')
   \<and> example_json_load ''{'' = Inl ValueError
   \<and> load_qpf_math_state example_json_load example_gauss example_fs ''u2'' 2 1 0
       = Inr (fresh_state example_gauss 2 1 0)
   \<and> read_state example_json_load example_fs (os_path_join ''u5'' ''qpf_weights.json'') = Inl ValueError
   \<and> load_qpf_math_state example_json_load example_gauss example_fs ''u5'' 2 1 0
       = Inr (fresh_state example_gauss 2 1 0)
   \<and> fresh_state example_gauss 2 1 0 =
       ((\<lparr>shape = [2], flat = [JFloat 0, JFloat (1 / 10)]\<rparr>,
         \<lparr>shape = [2, 1], flat = [JFloat (2 / 10), JFloat (3 / 10)]\<rparr>,
         \<lparr>shape = [2, 2], flat = [JFloat (4 / 10), JFloat (5 / 10), JFloat (6 / 10), JFloat (7 / 10)]\<rparr>), 8)
   \<and> example_fs (os_path_join ''u1'' ''qpf_weights.json'') = Some (RegularFile ''state'')
   \<and> load_qpf_math_state example_json_load example_gauss example_fs ''u1'' 2 1 0
       = Inr ((\<lparr>shape = [2], flat = [JFloat 1, JFloat 2]\<rparr>,
               \<lparr>shape = [2, 1], flat = [JFloat 3, JFloat 4]\<rparr>,
               \<lparr>shape = [2, 2], flat = [JFloat 5, JFloat 6, JFloat 7, JFloat 8]\<rparr>), 0)"
proof -
  note T = load_qpf_math_state_falls_back[where json_load = example_json_load
      and gauss = example_gauss and fs = example_fs and N = 2 and D = 1 and pos = 0]
  have h4: "example_fs (os_path_join ''u4'' ''qpf_weights.json'') = None"
    by (simp add: eval_state)
  have r4: "load_qpf_math_state example_json_load example_gauss example_fs ''u4'' 2 1 0
       = Inr (fresh_state example_gauss 2 1 0)"
    by (rule T[where user_dir = "''u4''", THEN conjunct2, THEN conjunct1, THEN mp, OF disjI1[OF h4]])
  have h3: "example_fs (os_path_join ''u3'' ''qpf_weights.json'') = Some (RegularFile [])"
    by (simp add: eval_state)
  have r3: "load_qpf_math_state example_json_load example_gauss example_fs ''u3'' 2 1 0
       = Inr (fresh_state example_gauss 2 1 0)"
    by (rule T[where user_dir = "''u3''", THEN conjunct2, THEN conjunct1, THEN mp,
          OF disjI2[OF disjI1[OF h3]]])
  have h2: "example_fs (os_path_join ''u2'' ''qpf_weights.json'') = Some (RegularFile ''{'')"
    "example_json_load ''{'' = Inl ValueError"
    by (simp_all add: eval_state)
  have h2': "\<exists>content e. example_fs (os_path_join ''u2'' ''qpf_weights.json'') = Some (RegularFile content)
        \<and> example_json_load content = Inl e"
    using h2 by blast
  have r2: "load_qpf_math_state example_json_load example_gauss example_fs ''u2'' 2 1 0
       = Inr (fresh_state example_gauss 2 1 0)"
    by (rule T[where user_dir = "''u2''", THEN conjunct2, THEN conjunct1, THEN mp,
          OF disjI2[OF disjI2[OF disjI1[OF h2']]]])
  have h5: "read_state example_json_load example_fs (os_path_join ''u5'' ''qpf_weights.json'') = Inl ValueError"
    by (simp add: eval_state read_state_def read_file_def data_item_def)
  have h5': "\<exists>e. read_state example_json_load example_fs (os_path_join ''u5'' ''qpf_weights.json'') = Inl e"
    using h5 by blast
  have r5: "load_qpf_math_state example_json_load example_gauss example_fs ''u5'' 2 1 0
       = Inr (fresh_state example_gauss 2 1 0)"
    by (rule T[where user_dir = "''u5''", THEN conjunct2, THEN conjunct1, THEN mp,
          OF disjI2[OF disjI2[OF disjI2[OF h5']]]])
  have h1: "example_fs (os_path_join ''u1'' ''qpf_weights.json'') = Some (RegularFile ''state'')"
    by (simp add: eval_state)
  let ?kvs = "[(''w'', JArr [JFloat 1, JFloat 2]),
               (''psi'', JArr [JArr [JFloat 3], JArr [JFloat 4]]),
               (''W'', JArr [JArr [JFloat 5, JFloat 6], JArr [JFloat 7, JFloat 8]])]"
  have p1: "example_fs (os_path_join ''u1'' ''qpf_weights.json'') = Some (RegularFile ''state'')
      \<and> ''state'' \<noteq> []
      \<and> example_json_load ''state'' = Inr (JObj ?kvs)
      \<and> json_get ?kvs ''w'' = Some (JArr [JFloat 1, JFloat 2])
      \<and> json_get ?kvs ''psi'' = Some (JArr [JArr [JFloat 3], JArr [JFloat 4]])
      \<and> json_get ?kvs ''W'' = Some (JArr [JArr [JFloat 5, JFloat 6], JArr [JFloat 7, JFloat 8]])
      \<and> np_array (JArr [JFloat 1, JFloat 2]) = Inr \<lparr>shape = [2], flat = [JFloat 1, JFloat 2]\<rparr>
      \<and> np_array (JArr [JArr [JFloat 3], JArr [JFloat 4]]) = Inr \<lparr>shape = [2, 1], flat = [JFloat 3, JFloat 4]\<rparr>
      \<and> np_array (JArr [JArr [JFloat 5, JFloat 6], JArr [JFloat 7, JFloat 8]])
          = Inr \<lparr>shape = [2, 2], flat = [JFloat 5, JFloat 6, JFloat 7, JFloat 8]\<rparr>"
    by (simp add: eval_state)
  have r1: "load_qpf_math_state example_json_load example_gauss example_fs ''u1'' 2 1 0
       = Inr ((\<lparr>shape = [2], flat = [JFloat 1, JFloat 2]\<rparr>,
               \<lparr>shape = [2, 1], flat = [JFloat 3, JFloat 4]\<rparr>,
               \<lparr>shape = [2, 2], flat = [JFloat 5, JFloat 6, JFloat 7, JFloat 8]\<rparr>), 0)"
    by (rule T[where user_dir = "''u1''", THEN conjunct2, THEN conjunct2, THEN conjunct2,
          rule_format, OF p1])
  show ?thesis
    apply (intro conjI)
    apply (rule h4)
    apply (rule r4)
    apply (rule h3)
    apply (rule r3)
    apply (rule h2(1))
    apply (rule h2(2))
    apply (rule r2)
    apply (rule h5)
    apply (rule r5)
    apply (rule fresh_example)
    apply (rule h1)
    apply (rule r1)
    done
qed

section \<open>Properties of persistence\<close>

subsection \<open>Values\<close>







subsection \<open>Events, nodes and links\<close>






subsection \<open>Rebuilding the graph\<close>

lemma fst_clear_adj: "map fst (map clear_adj g) = map fst g"
  by (simp add: clear_adj_def comp_def)













end
